theory Spec2Isabelle
  imports Complex_Main "HOL-Library.Product_Lexorder"
begin

section \<open>Python values and exceptions\<close>

text \<open>
  The exceptions that \<^verbatim>\<open>vaspy/iter.py\<close> can raise, as values. A function of the
  source that can raise returns \<open>py_error + 'a\<close>, with \<open>Inl\<close> for the exception.
\<close>

datatype py_error = TypeError | ValueError | AttributeError | OverflowError

section \<open>The patterns of the re module\<close>

text \<open>
  The three patterns of the module use character classes, greedy repetition, the optional
  operator, groups and the anchors \<^verbatim>\<open>^\<close> and \<^verbatim>\<open>$\<close>. Text is ASCII, one \<open>char\<close> per
  character. The matcher is the backtracking matcher of \<^verbatim>\<open>re\<close>: a pattern is matched
  against the text that is left and then hands over to what follows it, the continuation;
  when the continuation fails the pattern tries its next way of matching. The result is
  the first match found in this order, which is the match that \<^verbatim>\<open>re\<close> reports.
\<close>

datatype cls = Digit | Word | Space | Ch char

definition is_digit :: "char \<Rightarrow> bool" where
  "is_digit c = (c \<in> set ''0123456789'')"

definition is_word :: "char \<Rightarrow> bool" where
  "is_word c =
     (is_digit c \<or> c \<in> set ''abcdefghijklmnopqrstuvwxyzABCDEFGHIJKLMNOPQRSTUVWXYZ_'')"

definition is_space :: "char \<Rightarrow> bool" where
  \<comment> \<open>\<^verbatim>\<open>\s\<close> of Python 3 on ASCII text: space, tab, newline, vertical tab, form feed,
      carriage return and the four separators 0x1C to 0x1F\<close>
  "is_space c =
     (c \<in> set [CHR '' '', CHR 0x09, CHR 0x0A, CHR 0x0B, CHR 0x0C, CHR 0x0D,
                CHR 0x1C, CHR 0x1D, CHR 0x1E, CHR 0x1F])"

fun in_cls :: "cls \<Rightarrow> char \<Rightarrow> bool" where
  "in_cls Digit c = is_digit c"
| "in_cls Word c = is_word c"
| "in_cls Space c = is_space c"
| "in_cls (Ch d) c = (c = d)"

datatype rx =
    Emp
  | One "cls list"
  | Seq rx rx
  | Opt rx
  | Star rx
  | Plus rx
  | Group nat rx
  | Bol
  | Eol

text \<open>
  A match state is the position reached, the text still to read and the groups captured
  so far, the latest capture of a group first.
\<close>

type_synonym mstate = "nat \<times> string \<times> (nat \<times> string) list"

definition set_group :: "nat \<Rightarrow> mstate \<Rightarrow> mstate \<Rightarrow> mstate" where
  "set_group n s s' =
     (case s of (p, r, g) \<Rightarrow>
        (case s' of (p', r', g') \<Rightarrow> (p', r', (n, take (p' - p) r) # g')))"

text \<open>
  Greedy repetition: one more round first, then stopping here. Every repeated pattern of
  this module reads at least one character per round, so the rounds are bounded by the
  length of the text left.
\<close>

fun rounds ::
  "nat \<Rightarrow> (mstate \<Rightarrow> (mstate \<Rightarrow> 'a option) \<Rightarrow> 'a option) \<Rightarrow> mstate \<Rightarrow> (mstate \<Rightarrow> 'a option) \<Rightarrow> 'a option" where
  "rounds 0 m s k = k s"
| "rounds (Suc n) m s k =
     (case m s (\<lambda>s'. rounds n m s' k) of Some x \<Rightarrow> Some x | None \<Rightarrow> k s)"

definition star ::
  "(mstate \<Rightarrow> (mstate \<Rightarrow> 'a option) \<Rightarrow> 'a option) \<Rightarrow> mstate \<Rightarrow> (mstate \<Rightarrow> 'a option) \<Rightarrow> 'a option" where
  "star m s k = rounds (length (fst (snd s))) m s k"

primrec rx_match :: "rx \<Rightarrow> mstate \<Rightarrow> (mstate \<Rightarrow> 'a option) \<Rightarrow> 'a option" where
  "rx_match Emp s k = k s"
| "rx_match (One cs) s k =
     (case s of
        (p, [], g) \<Rightarrow> None
      | (p, c # r, g) \<Rightarrow> if list_ex (\<lambda>x. in_cls x c) cs then k (Suc p, r, g) else None)"
| "rx_match (Seq a b) s k = rx_match a s (\<lambda>s'. rx_match b s' k)"
| "rx_match (Opt a) s k = (case rx_match a s k of Some x \<Rightarrow> Some x | None \<Rightarrow> k s)"
| "rx_match (Star a) s k = star (rx_match a) s k"
| "rx_match (Plus a) s k = rx_match a s (\<lambda>s'. star (rx_match a) s' k)"
| "rx_match (Group n a) s k = rx_match a s (\<lambda>s'. k (set_group n s s'))"
| "rx_match Bol s k = (if fst s = 0 then k s else None)"
| "rx_match Eol s k =
     (if fst (snd s) = [] \<or> fst (snd s) = [CHR 0x0A] then k s else None)"

definition seqs :: "rx list \<Rightarrow> rx" where
  "seqs rs = foldr Seq rs Emp"

definition lit :: "string \<Rightarrow> rx" where
  "lit s = seqs (map (\<lambda>c. One [Ch c]) s)"

definition first_match :: "rx \<Rightarrow> nat \<Rightarrow> string \<Rightarrow> mstate option" where
  "first_match r p s = rx_match r (p, s, []) Some"

definition re_match :: "rx \<Rightarrow> string \<Rightarrow> mstate option" where
  \<comment> \<open>\<^verbatim>\<open>pattern.match\<close>: a match at the start of the text only.\<close>
  "re_match r s = first_match r 0 s"

fun search_from :: "rx \<Rightarrow> nat \<Rightarrow> string \<Rightarrow> mstate option" where
  "search_from r p [] = first_match r p []"
| "search_from r p (c # cs) =
     (case first_match r p (c # cs) of
        None \<Rightarrow> search_from r (Suc p) cs
      | Some m \<Rightarrow> Some m)"

definition re_search :: "rx \<Rightarrow> string \<Rightarrow> mstate option" where
  \<comment> \<open>\<^verbatim>\<open>pattern.search\<close>: the first position at which the pattern matches.\<close>
  "re_search r s = search_from r 0 s"

definition group :: "mstate \<Rightarrow> nat \<Rightarrow> string" where
  "group m n = (case map_of (snd (snd m)) n of None \<Rightarrow> [] | Some t \<Rightarrow> t)"

text \<open>
  \<^verbatim>\<open>pattern.findall\<close> for a pattern with two groups: the pairs of the matches found from
  left to right, each search starting where the match before it ended. The first argument
  counts the characters of the text that the last match still covers.
\<close>

fun findall_from :: "rx \<Rightarrow> nat \<Rightarrow> nat \<Rightarrow> string \<Rightarrow> (string \<times> string) list" where
  "findall_from r k p [] =
     (case first_match r p [] of None \<Rightarrow> [] | Some m \<Rightarrow> [(group m 1, group m 2)])"
| "findall_from r (Suc k) p (c # cs) = findall_from r k (Suc p) cs"
| "findall_from r 0 p (c # cs) =
     (case first_match r p (c # cs) of
        None \<Rightarrow> findall_from r 0 (Suc p) cs
      | Some m \<Rightarrow> (group m 1, group m 2) # findall_from r (fst m - p - 1) (Suc p) cs)"

definition findall :: "rx \<Rightarrow> string \<Rightarrow> (string \<times> string) list" where
  "findall r s = findall_from r 0 0 s"

section \<open>OsziCar\<close>

subsection \<open>Numbers, attribute values and the conversions of the runtime\<close>

text \<open>
  A number is a Python int or a float. The floats are a type parameter \<open>'f\<close>: the module
  computes nothing with them, it converts, stores and compares them. The conversions are
  those of the Python runtime and of numpy, so they are parameters too.
\<close>

datatype 'f num = PInt int | PFloat 'f

record 'f float_ops =
  float_str :: "string \<Rightarrow> py_error + 'f"  \<comment> \<open>\<^verbatim>\<open>float(s)\<close> for a string\<close>
  float_int :: "int \<Rightarrow> py_error + 'f"  \<comment> \<open>an int stored in a float field\<close>
  int_float :: "'f \<Rightarrow> py_error + int"  \<comment> \<open>a float stored in an int field\<close>
  int_str :: "string \<Rightarrow> py_error + int"  \<comment> \<open>a string stored in an int field\<close>

text \<open>
  The values that an attribute of an \<open>OsziCar\<close> object can hold: the list a field is
  collected in, the array it becomes, the tuple of names \<open>vars\<close>, the text \<open>content\<close>,
  what \<^verbatim>\<open>np.array\<close> makes of a value that is no list of numbers, and every other
  object (a method, a compiled pattern), which has no \<open>append\<close> and is not iterable.
\<close>

datatype 'f pyval =
    PList "'f num list"
  | PArray "'f num list"
  | PTuple "string list"
  | PStr string
  | PArrayOf "'f pyval"
  | PObject

text \<open>
  An object is its attributes by name: \<open>hasattr\<close> is \<open>self name \<noteq> None\<close>, \<open>setattr\<close> is
  the map update.
\<close>

type_synonym 'f obj = "string \<rightharpoonup> 'f pyval"

definition getattr :: "'f obj \<Rightarrow> string \<Rightarrow> py_error + 'f pyval" where
  "getattr self name = (case self name of None \<Rightarrow> Inl AttributeError | Some v \<Rightarrow> Inr v)"

fun append :: "'f pyval \<Rightarrow> 'f num \<Rightarrow> py_error + 'f pyval" where
  \<comment> \<open>\<^verbatim>\<open>v.append(number)\<close>: only a list has the method.\<close>
  "append (PList xs) x = Inr (PList (xs @ [x]))"
| "append v x = Inl AttributeError"

fun np_array :: "'f pyval \<Rightarrow> 'f pyval" where
  "np_array (PList xs) = PArray xs"
| "np_array (PArray xs) = PArray xs"
| "np_array (PArrayOf v) = PArrayOf v"
| "np_array v = PArrayOf v"

datatype 'f elem = ENum "'f num" | EStr string

fun py_iter :: "'f pyval \<Rightarrow> py_error + 'f elem list" where
  \<comment> \<open>The elements that iterating over a value gives.\<close>
  "py_iter (PList xs) = Inr (map ENum xs)"
| "py_iter (PArray xs) = Inr (map ENum xs)"
| "py_iter (PTuple ns) = Inr (map EStr ns)"
| "py_iter (PStr s) = Inr (map (\<lambda>c. EStr [c]) s)"
| "py_iter (PArrayOf (PTuple ns)) = Inr (map EStr ns)"
| "py_iter (PArrayOf v) = Inl TypeError"
| "py_iter PObject = Inl TypeError"

subsection \<open>The patterns of \<open>__init__\<close>\<close>

text \<open>
  \<^verbatim>\<open>float_regex = r'[\+|-]?\d*\.\d*(?:[e|E][\+|-]?\d+)?'\<close>
  \<^verbatim>\<open>eq_regex = r'\s*([\w|\d|\s]+)\=\s*(' + float_regex + r')\s*'\<close>
  \<^verbatim>\<open>split_regex = r'^\s*(\d+)\s*((' + eq_regex + r')+)$'\<close>

  Inside a class the bar is a character like any other. The groups of \<open>eq_regex\<close> are
  numbered 1 and 2 when it is compiled alone and 4 and 5 inside \<open>split_regex\<close>.
\<close>

definition sign_cls :: "cls list" where
  "sign_cls = [Ch (CHR ''+''), Ch (CHR ''|''), Ch (CHR ''-'')]"

definition float_regex :: rx where
  "float_regex =
     seqs [Opt (One sign_cls), Star (One [Digit]), One [Ch (CHR ''.'')], Star (One [Digit]),
           Opt (seqs [One [Ch (CHR ''e''), Ch (CHR ''|''), Ch (CHR ''E'')],
                      Opt (One sign_cls), Plus (One [Digit])])]"

definition name_cls :: "cls list" where
  "name_cls = [Word, Ch (CHR ''|''), Digit, Ch (CHR ''|''), Space]"

definition eq_regex :: "nat \<Rightarrow> rx" where
  "eq_regex k =
     seqs [Star (One [Space]), Group (k + 1) (Plus (One name_cls)), One [Ch (CHR ''='')],
           Star (One [Space]), Group (k + 2) float_regex, Star (One [Space])]"

definition split_regex :: rx where
  "split_regex =
     seqs [Bol, Star (One [Space]), Group 1 (Plus (One [Digit])), Star (One [Space]),
           Group 2 (Plus (Group 3 (eq_regex 3))), Eol]"

subsection \<open>OsziCar.match\<close>

definition digit_val :: "char \<Rightarrow> int" where
  "digit_val c = int (length (takeWhile (\<lambda>d. d \<noteq> c) ''0123456789''))"

definition int_of_digits :: "string \<Rightarrow> int" where
  \<comment> \<open>\<^verbatim>\<open>int(s)\<close> for a string of decimal digits\<close>
  "int_of_digits s = foldl (\<lambda>a c. 10 * a + digit_val c) 0 s"

definition unzip2 :: "('a \<times> 'b) list \<Rightarrow> py_error + ('a list \<times> 'b list)" where
  \<comment> \<open>\<^verbatim>\<open>names, numbers = zip(*eq_tuples)\<close>: nothing to unpack when there is no pair.\<close>
  "unzip2 ps = (if ps = [] then Inl ValueError else Inr (map fst ps, map snd ps))"

fun floats :: "'f float_ops \<Rightarrow> string list \<Rightarrow> py_error + 'f list" where
  \<comment> \<open>\<^verbatim>\<open>[float(number) for number in numbers]\<close>\<close>
  "floats ops [] = Inr []"
| "floats ops (n # ns) =
     (case float_str ops n of
        Inl e \<Rightarrow> Inl e
      | Inr x \<Rightarrow> (case floats ops ns of Inl e \<Rightarrow> Inl e | Inr xs \<Rightarrow> Inr (x # xs)))"

definition match :: "'f float_ops \<Rightarrow> string \<Rightarrow> py_error + (string \<times> 'f num) list option" where
  "match ops line =
     (case re_search split_regex line of
        None \<Rightarrow> Inr None
      | Some m \<Rightarrow>
          let step = int_of_digits (group m 1);
              resid = group m 2;
              eq_tuples = findall (eq_regex 0) resid
          in (case unzip2 eq_tuples of
                Inl e \<Rightarrow> Inl e
              | Inr (names, numbers) \<Rightarrow>
                  let names = map (filter (\<lambda>c. c \<noteq> CHR '' '')) names
                  in (case floats ops numbers of
                        Inl e \<Rightarrow> Inl e
                      | Inr numbers \<Rightarrow>
                          Inr (Some ((''step'', PInt step) # zip names (map PFloat numbers))))))"

subsection \<open>OsziCar.load\<close>

fun store :: "'f obj \<Rightarrow> (string \<times> 'f num) list \<Rightarrow> py_error + 'f obj" where
  \<comment> \<open>\<^verbatim>\<open>for name, number in eq_tuples\<close>: a new list, or \<open>append\<close> to what is there.\<close>
  "store self [] = Inr self"
| "store self ((name, number) # rest) =
     (case self name of
        None \<Rightarrow> store (self(name \<mapsto> PList [number])) rest
      | Some v \<Rightarrow>
          (case append v number of
             Inl e \<Rightarrow> Inl e
           | Inr v' \<Rightarrow> store (self(name \<mapsto> v')) rest))"

fun load_lines ::
  "'f float_ops \<Rightarrow> 'f obj \<Rightarrow> string \<Rightarrow> string list \<Rightarrow> py_error + ('f obj \<times> string)" where
  \<comment> \<open>\<^verbatim>\<open>for line in f\<close>, with the object and \<open>content\<close> as they stand.\<close>
  "load_lines ops self content [] = Inr (self, content)"
| "load_lines ops self content (line # ls) =
     (case match ops line of
        Inl e \<Rightarrow> Inl e
      | Inr None \<Rightarrow> load_lines ops self content ls
      | Inr (Some eq_tuples) \<Rightarrow>
          if eq_tuples = [] then load_lines ops self content ls
          else
            let self1 = (if self ''vars'' = None
                         then self(''vars'' \<mapsto> PTuple (map fst eq_tuples)) else self)
            in (case store self1 eq_tuples of
                  Inl e \<Rightarrow> Inl e
                | Inr self2 \<Rightarrow> load_lines ops self2 (content @ line) ls))"

fun to_arrays :: "'f obj \<Rightarrow> 'f elem list \<Rightarrow> py_error + 'f obj" where
  \<comment> \<open>\<^verbatim>\<open>for var in self.vars\<close>: an attribute name has to be a string.\<close>
  "to_arrays self [] = Inr self"
| "to_arrays self (ENum x # vs) = Inl TypeError"
| "to_arrays self (EStr var # vs) =
     (case getattr self var of
        Inl e \<Rightarrow> Inl e
      | Inr data \<Rightarrow> to_arrays (self(var \<mapsto> np_array data)) vs)"

definition load :: "'f float_ops \<Rightarrow> 'f obj \<Rightarrow> string list \<Rightarrow> py_error + 'f obj" where
  \<comment> \<open>The lines are those of the file; the result is the object as \<open>load\<close> leaves it.\<close>
  "load ops self lines =
     (case load_lines ops self [] lines of
        Inl e \<Rightarrow> Inl e
      | Inr (self1, content) \<Rightarrow>
          let self2 = self1(''content'' \<mapsto> PStr content)
          in (case getattr self2 ''vars'' of
                Inl e \<Rightarrow> Inl e
              | Inr v \<Rightarrow>
                  (case py_iter v of
                     Inl e \<Rightarrow> Inl e
                   | Inr vars \<Rightarrow> to_arrays self2 vars)))"

text \<open>
  The lines on which \<open>match\<close> returns a match, and the field names that \<open>load\<close>
  comes across on them.
\<close>

definition matched :: "'f float_ops \<Rightarrow> string \<Rightarrow> bool" where
  "matched ops line = (case match ops line of Inr (Some t) \<Rightarrow> True | _ \<Rightarrow> False)"

definition fields_of :: "'f float_ops \<Rightarrow> string \<Rightarrow> string list" where
  "fields_of ops line = (case match ops line of Inr (Some t) \<Rightarrow> map fst t | _ \<Rightarrow> [])"

definition discovered :: "'f float_ops \<Rightarrow> string list \<Rightarrow> string list" where
  "discovered ops lines = concat (map (fields_of ops) lines)"

text \<open>
  The attribute \<open>content\<close> holds a text either as a string or, when \<^verbatim>\<open>np.array\<close> was
  applied to it, wrapped in an array.
\<close>

definition holds_text :: "'f pyval option \<Rightarrow> string \<Rightarrow> bool" where
  "holds_text v t = (v = Some (PStr t) \<or> v = Some (PArrayOf (PStr t)))"

text \<open>
  An attribute holds numbers as the list they are collected in or as the array that
  \<^verbatim>\<open>np.array\<close> makes of it.
\<close>

definition holds_nums :: "'f pyval option \<Rightarrow> 'f num list \<Rightarrow> bool" where
  "holds_nums v xs = (v = Some (PList xs) \<or> v = Some (PArray xs))"

definition nonempty_list :: "'f pyval option \<Rightarrow> bool" where
  "nonempty_list v = (\<exists>xs. v = Some (PList xs) \<and> xs \<noteq> [])"

subsection \<open>OsziCar.esort\<close>

fun to_float :: "'f float_ops \<Rightarrow> 'f elem \<Rightarrow> py_error + 'f" where
  "to_float ops (ENum (PInt i)) = float_int ops i"
| "to_float ops (ENum (PFloat x)) = Inr x"
| "to_float ops (EStr s) = float_str ops s"

fun to_int :: "'f float_ops \<Rightarrow> 'f elem \<Rightarrow> py_error + int" where
  \<comment> \<open>The int field is a 64-bit integer.\<close>
  "to_int ops (ENum (PInt i)) =
     (if - (2 ^ 63) \<le> i \<and> i < 2 ^ 63 then Inr i else Inl OverflowError)"
| "to_int ops (ENum (PFloat x)) = int_float ops x"
| "to_int ops (EStr s) = int_str ops s"

definition zipped :: "'f obj \<Rightarrow> string \<Rightarrow> py_error + ('f elem \<times> 'f elem) list" where
  \<comment> \<open>\<^verbatim>\<open>zip(getattr(self, var), self.step)\<close>\<close>
  "zipped self var =
     (case getattr self var of
        Inl e \<Rightarrow> Inl e
      | Inr v \<Rightarrow>
          (case getattr self ''step'' of
             Inl e \<Rightarrow> Inl e
           | Inr st \<Rightarrow>
               (case py_iter v of
                  Inl e \<Rightarrow> Inl e
                | Inr xs \<Rightarrow> (case py_iter st of Inl e \<Rightarrow> Inl e | Inr ys \<Rightarrow> Inr (zip xs ys)))))"

fun structured :: "'f float_ops \<Rightarrow> ('f elem \<times> 'f elem) list \<Rightarrow> py_error + ('f \<times> int) list" where
  \<comment> \<open>\<^verbatim>\<open>np.array(zipped, dtype=[('var', float), ('step', int)])\<close>\<close>
  "structured ops [] = Inr []"
| "structured ops ((a, b) # rest) =
     (case to_float ops a of
        Inl e \<Rightarrow> Inl e
      | Inr x \<Rightarrow>
          (case to_int ops b of
             Inl e \<Rightarrow> Inl e
           | Inr i \<Rightarrow>
               (case structured ops rest of Inl e \<Rightarrow> Inl e | Inr rows \<Rightarrow> Inr ((x, i) # rows))))"

definition slice_to :: "int \<Rightarrow> 'a list \<Rightarrow> 'a list" where
  \<comment> \<open>\<^verbatim>\<open>xs[:n]\<close>: a negative bound counts from the end.\<close>
  "slice_to n xs = (if n < 0 then take (nat (int (length xs) + n)) xs else take (nat n) xs)"

definition slice_from :: "int \<Rightarrow> 'a list \<Rightarrow> 'a list" where
  \<comment> \<open>\<^verbatim>\<open>xs[k:]\<close>: a negative bound counts from the end.\<close>
  "slice_from k xs = (if k < 0 then drop (nat (int (length xs) + k)) xs else drop (nat k) xs)"

text \<open>
  \<^verbatim>\<open>np.sort(zipped, order='var')\<close> compares the field \<open>var\<close> first and the remaining field
  \<open>step\<close> to break ties: the rows in ascending lexicographic order.
\<close>

definition esort ::
  "('f::linorder) float_ops \<Rightarrow> 'f obj \<Rightarrow> string \<Rightarrow> int \<Rightarrow> bool \<Rightarrow> py_error + ('f \<times> int) list" where
  "esort ops self var n reverse =
     (case zipped self var of
        Inl e \<Rightarrow> Inl e
      | Inr z \<Rightarrow>
          (case structured ops z of
             Inl e \<Rightarrow> Inl e
           | Inr arr \<Rightarrow>
               let srted = sort arr
               in Inr (if reverse then slice_from (- n) srted else slice_to n srted)))"

section \<open>OutCar.__iter__\<close>

text \<open>
  \<^verbatim>\<open>force_regex = re.compile(r"^ POSITION\s+TOTAL-FORCE\s*\(eV\/Angst\)$")\<close>
\<close>

definition force_regex :: rx where
  "force_regex =
     seqs [Bol, lit '' POSITION'', Plus (One [Space]), lit ''TOTAL-FORCE'',
           Star (One [Space]), lit ''(eV/Angst)'', Eol]"

definition is_header :: "string \<Rightarrow> bool" where
  \<comment> \<open>\<^verbatim>\<open>self.force_regex.match(line)\<close> as a condition\<close>
  "is_header line = (re_match force_regex line \<noteq> None)"

fun starts_with :: "string \<Rightarrow> string \<Rightarrow> bool" where
  "starts_with [] s = True"
| "starts_with (c # cs) [] = False"
| "starts_with (c # cs) (d # ds) = (c = d \<and> starts_with cs ds)"

fun py_in :: "string \<Rightarrow> string \<Rightarrow> bool" where
  \<comment> \<open>\<^verbatim>\<open>sub in s\<close> for strings\<close>
  "py_in sub [] = (sub = [])"
| "py_in sub (c # cs) = (starts_with sub (c # cs) \<or> py_in sub cs)"

definition dashes :: "string \<Rightarrow> bool" where
  \<comment> \<open>\<^verbatim>\<open>"-"*6 in line\<close>\<close>
  "dashes line = py_in (replicate 6 (CHR ''-'')) line"

text \<open>
  The local variables of the generator. \<open>coordinates\<close> and \<open>forces\<close> are unbound until
  the first separator line binds them; they are read only after that, so the empty list
  stands for unbound.
\<close>

record 'a scan =
  ion_step :: int
  collect_begin :: bool
  collecting :: bool
  coordinates :: "'a list list"
  forces :: "'a list list"

type_synonym 'a block = "int \<times> 'a list list \<times> 'a list list"

definition start :: "'a scan" where
  "start = \<lparr>ion_step = 0, collect_begin = False, collecting = False,
            coordinates = [], forces = []\<rparr>"

text \<open>
  One round of \<^verbatim>\<open>for line in f\<close>: the locals after it and what it yields, or the exception
  it raises. \<open>line2list\<close> is \<^verbatim>\<open>vaspy.functions.line2list\<close>, which is not part of this
  file: it is a parameter. Unpacking its result into six names raises ValueError unless it
  has six elements; then \<open>[x, y, z]\<close> are the first three and \<open>[fx, fy, fz]\<close> the last
  three.
\<close>

definition step_line ::
  "(string \<Rightarrow> py_error + 'a list) \<Rightarrow> 'a scan \<Rightarrow> string \<Rightarrow> py_error + ('a scan \<times> 'a block option)" where
  "step_line line2list s line =
     (if \<not> collect_begin s then
        (if is_header line
         then Inr (s\<lparr>collect_begin := True, ion_step := ion_step s + 1\<rparr>, None)
         else Inr (s, None))
      else if \<not> collecting s then
        (if dashes line
         then Inr (s\<lparr>collecting := True, coordinates := [], forces := []\<rparr>, None)
         else Inr (s, None))
      else
        (if dashes line
         then Inr (s\<lparr>collecting := False, collect_begin := False\<rparr>,
                   Some (ion_step s, coordinates s, forces s))
         else
           (case line2list line of
              Inl e \<Rightarrow> Inl e
            | Inr xs \<Rightarrow>
                if length xs = 6
                then Inr (s\<lparr>coordinates := coordinates s @ [take 3 xs],
                             forces := forces s @ [drop 3 xs]\<rparr>, None)
                else Inl ValueError)))"

text \<open>
  A traversal: the blocks yielded, in order, and how it ended, with the exception raised or
  with the locals at the end of the file.
\<close>

fun run ::
  "(string \<Rightarrow> py_error + 'a list) \<Rightarrow> 'a scan \<Rightarrow> string list \<Rightarrow> 'a block list \<times> (py_error + 'a scan)" where
  "run line2list s [] = ([], Inr s)"
| "run line2list s (line # ls) =
     (case step_line line2list s line of
        Inl e \<Rightarrow> ([], Inl e)
      | Inr (s', out) \<Rightarrow>
          (case run line2list s' ls of
             (ys, end) \<Rightarrow> ((case out of None \<Rightarrow> ys | Some y \<Rightarrow> y # ys), end)))"

definition OutCar_iter ::
  "(string \<Rightarrow> py_error + 'a list) \<Rightarrow> string list \<Rightarrow> 'a block list \<times> (py_error + 'a scan)" where
  "OutCar_iter line2list lines = run line2list start lines"

text \<open>
  The step index of the block that the generator yields next: the block that is open, or
  the one that the next header opens.
\<close>

definition next_step :: "'a scan \<Rightarrow> int" where
  "next_step s = (if collect_begin s then ion_step s else ion_step s + 1)"

text \<open>
  A data line of a well-formed block: no separator, and six tokens.
\<close>

definition data_line :: "(string \<Rightarrow> py_error + 'a list) \<Rightarrow> string \<Rightarrow> 'a list \<Rightarrow> bool" where
  "data_line line2list d xs = (\<not> dashes d \<and> line2list d = Inr xs \<and> length xs = 6)"

section \<open>OutCar.fmax\<close>

text \<open>
  \<^verbatim>\<open>max_force = max(atom_forces, key=lambda x: sum([x**2 for i in x]))\<close>
  \<^verbatim>\<open>index = atom_forces.index(max_force)\<close>

  The key squares \<open>x\<close>, the force vector itself, once for every component \<open>i\<close>
  of it. The vectors that \<open>__iter__\<close> builds are Python lists, and a list raised
  to a power is a TypeError.
\<close>

definition list_pow :: "'a list \<Rightarrow> int \<Rightarrow> py_error + int" where
  \<comment> \<open>\<^verbatim>\<open>x**2\<close> for a list \<open>x\<close>: unsupported operand types.\<close>
  "list_pow x k = Inl TypeError"

fun squares :: "'a list \<Rightarrow> 'a list \<Rightarrow> py_error + int list" where
  \<comment> \<open>\<^verbatim>\<open>[x**2 for i in x]\<close>: the second argument is what is left of the iteration.\<close>
  "squares x [] = Inr []"
| "squares x (i # rest) =
     (case list_pow x 2 of
        Inl e \<Rightarrow> Inl e
      | Inr v \<Rightarrow> (case squares x rest of Inl e \<Rightarrow> Inl e | Inr vs \<Rightarrow> Inr (v # vs)))"

definition fmax_key :: "'a list \<Rightarrow> py_error + int" where
  "fmax_key x = (case squares x x of Inl e \<Rightarrow> Inl e | Inr vs \<Rightarrow> Inr (sum_list vs))"

fun max_from :: "('a \<Rightarrow> py_error + int) \<Rightarrow> 'a \<Rightarrow> int \<Rightarrow> 'a list \<Rightarrow> py_error + 'a" where
  \<comment> \<open>The loop of \<^verbatim>\<open>max\<close>: the held item is replaced only by a strictly larger key.\<close>
  "max_from key best bk [] = Inr best"
| "max_from key best bk (x # xs) =
     (case key x of
        Inl e \<Rightarrow> Inl e
      | Inr k \<Rightarrow> if bk < k then max_from key x k xs else max_from key best bk xs)"

fun py_max :: "('a \<Rightarrow> py_error + int) \<Rightarrow> 'a list \<Rightarrow> py_error + 'a" where
  "py_max key [] = Inl ValueError"
| "py_max key (x # xs) =
     (case key x of Inl e \<Rightarrow> Inl e | Inr k \<Rightarrow> max_from key x k xs)"

fun list_index :: "'a list \<Rightarrow> 'a \<Rightarrow> py_error + nat" where
  \<comment> \<open>\<^verbatim>\<open>list.index\<close>: the position of the first equal element.\<close>
  "list_index [] v = Inl ValueError"
| "list_index (x # xs) v =
     (if x = v then Inr 0
      else case list_index xs v of Inl e \<Rightarrow> Inl e | Inr n \<Rightarrow> Inr (Suc n))"

definition fmax :: "'a list list \<Rightarrow> py_error + (nat \<times> 'a list)" where
  "fmax atom_forces =
     (case py_max fmax_key atom_forces of
        Inl e \<Rightarrow> Inl e
      | Inr max_force \<Rightarrow>
          (case list_index atom_forces max_force of
             Inl e \<Rightarrow> Inl e
           | Inr index \<Rightarrow> Inr (index, max_force)))"

section \<open>Well-formed iteration lines\<close>






definition in_set :: "cls list \<Rightarrow> char \<Rightarrow> bool" where
  \<comment> \<open>membership in a character class\<close>
  "in_set cs c = list_ex (\<lambda>x. in_cls x c) cs"





section \<open>Running the model\<close>

text \<open>
  To run the model on a concrete file the conversions have to be something. Here a float
  is the exact value of its decimal literal, a rational number, with no rounding. The
  theorems below hold for every choice of the conversions; this one serves to evaluate
  them on examples.
\<close>

definition decimal_regex :: rx where
  "decimal_regex =
     seqs [Bol, Star (One [Space]), Group 1 (Opt (One [Ch (CHR ''+''), Ch (CHR ''-'')])),
           Group 2 (Star (One [Digit])),
           Opt (Seq (One [Ch (CHR ''.'')]) (Group 3 (Star (One [Digit])))),
           Opt (seqs [One [Ch (CHR ''e''), Ch (CHR ''E'')],
                      Group 4 (Opt (One [Ch (CHR ''+''), Ch (CHR ''-'')])),
                      Group 5 (Plus (One [Digit]))]),
           Star (One [Space]), Eol]"

definition exact_float :: "string \<Rightarrow> py_error + rat" where
  "exact_float s =
     (case re_match decimal_regex s of
        None \<Rightarrow> Inl ValueError
      | Some m \<Rightarrow>
          if group m 2 @ group m 3 = [] then Inl ValueError
          else
            let mant = of_int (int_of_digits (group m 2 @ group m 3));
                ex = (if group m 4 = ''-'' then - int_of_digits (group m 5)
                      else int_of_digits (group m 5)) - int (length (group m 3));
                v = (if 0 \<le> ex then mant * 10 ^ nat ex else mant / 10 ^ nat (- ex))
            in Inr (if group m 1 = ''-'' then - v else v))"

definition integer_regex :: rx where
  "integer_regex =
     seqs [Bol, Star (One [Space]), Group 1 (Opt (One [Ch (CHR ''+''), Ch (CHR ''-'')])),
           Group 2 (Plus (One [Digit])), Star (One [Space]), Eol]"

definition exact_int :: "string \<Rightarrow> py_error + int" where
  "exact_int s =
     (case re_match integer_regex s of
        None \<Rightarrow> Inl ValueError
      | Some m \<Rightarrow>
          Inr (if group m 1 = ''-'' then - int_of_digits (group m 2)
               else int_of_digits (group m 2)))"

definition exact_ops :: "rat float_ops" where
  "exact_ops =
     \<lparr>float_str = exact_float,
      float_int = (\<lambda>i. Inr (of_int i)),
      int_float = (\<lambda>x. Inr (if 0 \<le> x then \<lfloor>x\<rfloor> else \<lceil>x\<rceil>)),
      int_str = exact_int\<rparr>"

text \<open>
  Modelled from the spec: \<^verbatim>\<open>line2list\<close> of \<^verbatim>\<open>vaspy.functions\<close>, which is not part of
  this file. The spec has a data line tokenized into whitespace-separated tokens, each
  converted to a floating-point number, and a token that is no number an error.
\<close>

definition split_ws :: "string \<Rightarrow> string list" where
  "split_ws line =
     filter (\<lambda>w. w \<noteq> [])
       (foldr (\<lambda>c ws. if is_space c then [] # ws else (c # hd ws) # tl ws) line [[]])"

definition line2list :: "'f float_ops \<Rightarrow> string \<Rightarrow> py_error + 'f list" where
  "line2list ops line = floats ops (split_ws line)"

text \<open>
  Modelled from the spec: the base class \<open>VasPy\<close>, which is not part of this file, gives
  an object its \<open>filename\<close> accessor. The methods and the two patterns are those of
  \<open>OsziCar\<close>; \<open>__init__\<close> sets the patterns and calls \<open>load\<close>. The other names are
  the attributes that every Python object has. Each of them is an object without
  \<open>append\<close>; \<open>__module__\<close> is a string. The instance dictionary \<open>__dict__\<close> stands as
  such an object too, although Python can iterate over it.
\<close>

definition object_names :: "string list" where
  "object_names =
     [''__class__'', ''__delattr__'', ''__dict__'', ''__dir__'', ''__doc__'', ''__eq__'',
      ''__format__'', ''__ge__'', ''__getattribute__'', ''__getstate__'', ''__gt__'',
      ''__hash__'', ''__init_subclass__'', ''__le__'', ''__lt__'', ''__ne__'', ''__new__'',
      ''__reduce__'', ''__reduce_ex__'', ''__repr__'', ''__setattr__'', ''__sizeof__'',
      ''__str__'', ''__subclasshook__'', ''__weakref__'']"

definition new_OsziCar :: "'f obj" where
  "new_OsziCar =
     (map_of (map (\<lambda>name. (name, PObject))
        ([''__init__'', ''filename'', ''match'', ''load'', ''esort'', ''plot'', ''eq_regex'',
          ''split_regex''] @ object_names)))
     (''__module__'' \<mapsto> PStr ''vaspy.iter'')"

definition OsziCar :: "'f float_ops \<Rightarrow> string list \<Rightarrow> py_error + 'f obj" where
  "OsziCar ops lines = load ops new_OsziCar lines"

text \<open>
  An iteration log of two steps under its heading, and a log in which no line matches.
\<close>

definition example_log :: "string list" where
  "example_log =
     [''       N       E                     dE\<newline>'',
      ''   1 F= -.85E+02 E0= -.8E+02  d E =-.85E+02\<newline>'',
      ''   2 F= -.95E+02 E0= -.9E+02  d E =-.1E+02\<newline>'']"


definition heading_only :: "string list" where
  "heading_only = [''       N       E                     dE\<newline>'', ''\<newline>'']"

text \<open>
  A log with a field named \<open>content\<close>, and a log whose step does not fit 64 bits.
\<close>

definition content_log :: "string list" where
  "content_log = [''   1 content= .1E+01\<newline>'']"

definition large_step_log :: "string list" where
  "large_step_log = [''99999999999999999999 E0= -.8E+02\<newline>'']"

text \<open>
  A report with two blocks of two atoms each, and other text around them.
\<close>

definition report_header :: string where
  "report_header = '' POSITION     TOTAL-FORCE (eV/Angst)\<newline>''"

definition report_rule :: string where
  "report_rule = '' ------------\<newline>''"

definition example_report :: "string list" where
  "example_report =
     [''  free energy\<newline>'',
      report_header, report_rule,
      '' 0.0 0.0 0.0 0.1 0.2 0.3\<newline>'', '' 1.0 1.0 1.0 -.1 -.2 -.3\<newline>'',
      report_rule,
      ''\<newline>'',
      report_header, report_rule,
      '' 0.0 0.0 0.5 0.0 0.0 0.3\<newline>'', '' 1.0 1.0 1.5 0.0 0.0 -.3\<newline>'',
      report_rule,
      ''  total drift\<newline>'']"

text \<open>
  The same report cut off inside its second block, and with a data line of five tokens in
  its second block.
\<close>

definition truncated_report :: "string list" where
  "truncated_report = take 10 example_report"

definition malformed_line :: string where
  "malformed_line = '' 0.0 0.0 0.5 0.0 0.0\<newline>''"

section \<open>Evaluating the model on the examples\<close>

text \<open>
  The simplifier evaluates a match from the outside in: with these congruence rules it
  leaves a continuation alone until the matcher applies it.
\<close>

lemma rx_match_weak_cong: "r = r' \<Longrightarrow> s = s' \<Longrightarrow> rx_match r s k = rx_match r' s' k"
  by simp

lemma rounds_weak_cong: "n = n' \<Longrightarrow> s = s' \<Longrightarrow> rounds n m s k = rounds n' m s' k"
  by simp

lemma star_weak_cong: "s = s' \<Longrightarrow> star m s k = star m s' k"
  by simp

lemmas rx_cong = rx_match_weak_cong rounds_weak_cong star_weak_cong

lemmas rx_eval = split_regex_def eq_regex_def float_regex_def force_regex_def seqs_def lit_def
  name_cls_def sign_cls_def star_def set_group_def is_digit_def is_word_def is_space_def
  group_def first_match_def re_search_def re_match_def

lemmas match_eval = match_def findall_def unzip2_def int_of_digits_def digit_val_def Let_def
  exact_ops_def exact_float_def decimal_regex_def

lemma example_log_matches:
  "match exact_ops ''       N       E                     dE\<newline>'' = Inr None"
  "match exact_ops ''   1 F= -.85E+02 E0= -.8E+02  d E =-.85E+02\<newline>'' =
     Inr (Some [(''step'', PInt 1), (''F'', PFloat (- 85)), (''E0'', PFloat (- 80)),
                (''dE'', PFloat (- 85))])"
  "match exact_ops ''   2 F= -.95E+02 E0= -.9E+02  d E =-.1E+02\<newline>'' =
     Inr (Some [(''step'', PInt 2), (''F'', PFloat (- 95)), (''E0'', PFloat (- 90)),
                (''dE'', PFloat (- 10))])"
  "match exact_ops ''\<newline>'' = Inr None"
  "match exact_ops ''   1 content= .1E+01\<newline>'' =
     Inr (Some [(''step'', PInt 1), (''content'', PFloat 1)])"
  "match exact_ops ''99999999999999999999 E0= -.8E+02\<newline>'' =
     Inr (Some [(''step'', PInt 99999999999999999999), (''E0'', PFloat (- 80))])"
  by (simp_all add: rx_eval match_eval cong: rx_cong)

lemma new_OsziCar_fresh:
  "new_OsziCar ''vars'' = None" "new_OsziCar ''step'' = None" "new_OsziCar ''F'' = None"
  "new_OsziCar ''E0'' = None" "new_OsziCar ''dE'' = None" "new_OsziCar ''content'' = None"
  "new_OsziCar ''E1'' = None"
  by (simp_all add: new_OsziCar_def object_names_def)

lemmas load_eval = OsziCar_def load_def new_OsziCar_fresh getattr_def example_log_def
  heading_only_def content_log_def large_step_log_def example_log_matches esort_def zipped_def
  slice_to_def slice_from_def discovered_def fields_of_def matched_def

lemma example_loaded:
  "\<exists>self. OsziCar exact_ops example_log = Inr self \<and>
     self ''vars'' = Some (PTuple [''step'', ''F'', ''E0'', ''dE'']) \<and>
     self ''step'' = Some (PArray [PInt 1, PInt 2]) \<and>
     self ''E0'' = Some (PArray [PFloat (- 80), PFloat (- 90)]) \<and>
     self ''E1'' = None"
  by (simp add: load_eval)

lemma example_records:
  "\<exists>self. OsziCar exact_ops example_log = Inr self \<and>
     zipped self ''E0'' =
       Inr [(ENum (PFloat (- 80)), ENum (PInt 1)), (ENum (PFloat (- 90)), ENum (PInt 2))]"
  by (simp add: load_eval)

lemma example_structured:
  "structured exact_ops
     [(ENum (PFloat (- 80)), ENum (PInt 1)), (ENum (PFloat (- 90)), ENum (PInt 2))] =
   Inr [(- 80, 1), (- 90, 2)]"
  by simp

lemma example_sorted: "sort [(- 80 :: rat, 1 :: int), (- 90, 2)] = [(- 90, 2), (- 80, 1)]"
  by (simp add: less_eq_prod_def)

section \<open>Properties of fmax\<close>

text \<open>
  C2. On the forces \<open>[(0,0,1), (0,0,5), (0,0,-5)]\<close> the source does not return index 1
  with vector \<open>(0,0,5)\<close>: the key raises TypeError on the first vector, because it
  squares the vector and not its components.
\<close>

theorem fmax_example_raises:
  "fmax [[0, 0, 1], [0, 0, 5], [0, 0, - 5 :: int]] = Inl TypeError"
  by (simp add: fmax_def fmax_key_def list_pow_def)

section \<open>Properties of OutCar.__iter__\<close>

lemma run_append:
  "run tok s (xs @ ys) =
     (case run tok s xs of
        (y1, Inl e) \<Rightarrow> (y1, Inl e)
      | (y1, Inr s') \<Rightarrow> (case run tok s' ys of (y2, end) \<Rightarrow> (y1 @ y2, end)))"
  by (induction xs arbitrary: s) (auto split: sum.splits prod.splits option.splits)

lemma step_line_next:
  assumes "step_line tok s l = Inr (s', out)"
  shows "(out = None \<and> next_step s' = next_step s) \<or>
         (out = Some (next_step s, coordinates s, forces s) \<and> next_step s' = next_step s + 1)"
  using assms by (auto simp: step_line_def next_step_def split: if_splits sum.splits)

lemma run_steps:
  assumes "run tok s ls = (ys, end)"
  shows "map fst ys = [next_step s .. next_step s + int (length ys) - 1] \<and>
         (\<forall>s'. end = Inr s' \<longrightarrow> next_step s' = next_step s + int (length ys))"
  using assms
proof (induction ls arbitrary: s ys "end")
  case Nil
  then show ?case by auto
next
  case (Cons l ls)
  show ?case
  proof (cases "step_line tok s l")
    case (Inl e)
    with Cons.prems show ?thesis by auto
  next
    case (Inr r)
    obtain s1 out where r: "r = (s1, out)" by (cases r)
    obtain ys1 end1 where run1: "run tok s1 ls = (ys1, end1)" by (cases "run tok s1 ls")
    note IH = Cons.IH [OF run1]
    from Cons.prems Inr r run1 have e: "end = end1"
      and ys: "ys = (case out of None \<Rightarrow> ys1 | Some y \<Rightarrow> y # ys1)" by auto
    from step_line_next [OF Inr [unfolded r]] show ?thesis
    proof
      assume "out = None \<and> next_step s1 = next_step s"
      with IH e ys show ?thesis by auto
    next
      assume a: "out = Some (next_step s, coordinates s, forces s) \<and> next_step s1 = next_step s + 1"
      have "[next_step s .. next_step s + int (length ys1)] = next_step s # [next_step s + 1 .. next_step s + int (length ys1)]"
        by (simp add: upto_rec1)
      with a IH e ys show ?thesis by (auto simp: algebra_simps)
    qed
  qed
qed

lemma next_step_start: "next_step start = 1"
  by (simp add: next_step_def start_def)

lemma open_block_not_yielded:
  assumes "run tok start ls = (ys, Inr s)" and "collect_begin s"
  shows "int (length ys) = ion_step s - 1 \<and> ion_step s \<notin> set (map fst ys)"
proof -
  from run_steps [OF assms(1)] have steps: "map fst ys = [1 .. int (length ys)]"
    and "next_step s = 1 + int (length ys)"
    by (simp_all add: next_step_start)
  with assms(2) have "ion_step s = 1 + int (length ys)" by (simp add: next_step_def)
  with steps show ?thesis by simp
qed

text \<open>
  C10. The blocks that a traversal yields carry the step indices 1, 2, ..., in this order,
  whatever the lines are and also when the traversal is cut short by an exception. The
  reason is the second part: while a block is open a line never changes the counter, and
  the block stays open until the line that yields it.
\<close>

theorem yielded_steps_consecutive:
  "map fst (fst (OutCar_iter tok lines)) = [1 .. int (length (fst (OutCar_iter tok lines)))] \<and>
   (\<forall>s l s' out. collect_begin s \<and> step_line tok s l = Inr (s', out) \<longrightarrow>
      ion_step s' = ion_step s \<and>
      (collect_begin s' \<or> out = Some (ion_step s, coordinates s, forces s)))"
proof
  obtain ys e where r: "run tok start lines = (ys, e)" by (cases "run tok start lines")
  from run_steps [OF r] show "map fst (fst (OutCar_iter tok lines)) = [1 .. int (length (fst (OutCar_iter tok lines)))]"
    by (simp add: OutCar_iter_def r next_step_start)
next
  show "\<forall>s l s' out. collect_begin s \<and> step_line tok s l = Inr (s', out) \<longrightarrow>
      ion_step s' = ion_step s \<and>
      (collect_begin s' \<or> out = Some (ion_step s, coordinates s, forces s))"
    by (auto simp: step_line_def split: if_splits sum.splits)
qed

text \<open>
  C7. When the file ends while a block is open (after its header, before its closing
  separator) the traversal has ended without an exception and the open block is not among
  the blocks yielded: one block fewer was yielded than headers were counted, and none
  carries the index of the open block.
\<close>

theorem partial_block_discarded:
  assumes "OutCar_iter tok lines = (ys, Inr s)" and "collect_begin s"
  shows "int (length ys) = ion_step s - 1 \<and> ion_step s \<notin> set (map fst ys)"
  using open_block_not_yielded [of tok lines ys s] assms by (simp add: OutCar_iter_def)

text \<open>
  C6. In the collecting state, a line that is no separator and that does not give six
  tokens ends the traversal with an exception: the one that \<open>line2list\<close> raises, or
  ValueError from unpacking when the number of tokens is not six. What was yielded before
  stays yielded, nothing is yielded for the open block and the lines after it are not read.
\<close>

theorem malformed_data_line_aborts:
  assumes "OutCar_iter tok pre = (ys, Inr s)" and "collect_begin s" and "collecting s"
    and "\<not> dashes l" and "\<forall>xs. tok l = Inr xs \<longrightarrow> length xs \<noteq> 6"
  shows "OutCar_iter tok (pre @ l # post) =
           (ys, Inl (case tok l of Inl e \<Rightarrow> e | Inr xs \<Rightarrow> ValueError)) \<and>
         ion_step s \<notin> set (map fst ys)"
proof -
  have "step_line tok s l = Inl (case tok l of Inl e \<Rightarrow> e | Inr xs \<Rightarrow> ValueError)"
    using assms(2-5) by (auto simp: step_line_def split: sum.splits)
  then have "run tok s (l # post) = ([], Inl (case tok l of Inl e \<Rightarrow> e | Inr xs \<Rightarrow> ValueError))"
    by simp
  with assms(1) have "OutCar_iter tok (pre @ l # post) =
           (ys, Inl (case tok l of Inl e \<Rightarrow> e | Inr xs \<Rightarrow> ValueError))"
    by (simp add: OutCar_iter_def run_append)
  moreover from open_block_not_yielded [of tok pre ys s] assms(1,2)
  have "ion_step s \<notin> set (map fst ys)" by (simp add: OutCar_iter_def)
  ultimately show ?thesis by simp
qed


lemma step_header:
  "\<not> collect_begin s \<Longrightarrow> is_header h \<Longrightarrow>
   step_line tok s h = Inr (s\<lparr>collect_begin := True, ion_step := ion_step s + 1\<rparr>, None)"
  by (simp add: step_line_def)

lemma step_open:
  "collect_begin s \<Longrightarrow> \<not> collecting s \<Longrightarrow> dashes a \<Longrightarrow>
   step_line tok s a = Inr (s\<lparr>collecting := True, coordinates := [], forces := []\<rparr>, None)"
  by (simp add: step_line_def)

lemma step_data:
  "collect_begin s \<Longrightarrow> collecting s \<Longrightarrow> data_line tok d x \<Longrightarrow>
   step_line tok s d =
     Inr (s\<lparr>coordinates := coordinates s @ [take 3 x], forces := forces s @ [drop 3 x]\<rparr>, None)"
  by (simp add: step_line_def data_line_def)

lemma step_close:
  "collect_begin s \<Longrightarrow> collecting s \<Longrightarrow> dashes z \<Longrightarrow>
   step_line tok s z =
     Inr (s\<lparr>collecting := False, collect_begin := False\<rparr>,
          Some (ion_step s, coordinates s, forces s))"
  by (simp add: step_line_def)









theorem partial_block_discarded_witness:
  "OutCar_iter (line2list exact_ops) truncated_report =
     ([(1, [[0, 0, 0], [1, 1, 1]], [[1/10, 1/5, 3/10], [-1/10, -1/5, -3/10]])],
      Inr \<lparr>ion_step = 2, collect_begin = True, collecting = True,
           coordinates = [[0, 0, 1/2]], forces = [[0, 0, 3/10]]\<rparr>) \<and>
   (2::int) \<notin> set (map fst [(1, [[0, 0, 0], [1, 1, 1 :: rat]], [[1/10, 1/5, 3/10], [-1/10, -1/5, -3/10 :: rat]])])"
proof -
  let ?ys = "[(1 :: int, [[0, 0, 0], [1, 1, 1 :: rat]], [[1/10, 1/5, 3/10], [-1/10, -1/5, -3/10 :: rat]])]"
  let ?s = "\<lparr>ion_step = 2, collect_begin = True, collecting = True,
           coordinates = [[0, 0, 1/2 :: rat]], forces = [[0, 0, 3/10 :: rat]]\<rparr>"
  have r: "OutCar_iter (line2list exact_ops) truncated_report = (?ys, Inr ?s)"
    by code_simp
  have c: "collect_begin ?s" by simp
  from partial_block_discarded [OF r c] r show ?thesis by simp
qed

theorem malformed_data_line_aborts_witness:
  "OutCar_iter (line2list exact_ops) (take 9 example_report @ malformed_line # drop 10 example_report) =
     ([(1, [[0, 0, 0], [1, 1, 1]], [[1/10, 1/5, 3/10], [-1/10, -1/5, -3/10]])], Inl ValueError)"
proof -
  let ?ys = "[(1 :: int, [[0, 0, 0], [1, 1, 1 :: rat]], [[1/10, 1/5, 3/10], [-1/10, -1/5, -3/10 :: rat]])]"
  let ?s = "\<lparr>ion_step = 2, collect_begin = True, collecting = True,
           coordinates = ([] :: rat list list), forces = ([] :: rat list list)\<rparr>"
  have r: "OutCar_iter (line2list exact_ops) (take 9 example_report) = (?ys, Inr ?s)"
    by code_simp
  have t: "line2list exact_ops malformed_line = Inr [0, 0, 1/2, 0, 0]"
    by code_simp
  have d: "\<not> dashes malformed_line" by code_simp
  have b: "\<forall>xs. line2list exact_ops malformed_line = Inr xs \<longrightarrow> length xs \<noteq> 6"
    by (simp add: t)
  from malformed_data_line_aborts [OF r _ _ d b, of "drop 10 example_report"] t
  show ?thesis by simp
qed

theorem yielded_steps_consecutive_witness:
  "map fst (fst (OutCar_iter (line2list exact_ops) example_report)) = [1, 2] \<and>
   step_line (line2list exact_ops)
      \<lparr>ion_step = 1, collect_begin = True, collecting = False, coordinates = [], forces = []\<rparr>
      report_header =
     Inr (\<lparr>ion_step = 1, collect_begin = True, collecting = False, coordinates = [], forces = []\<rparr>, None)"
proof -
  let ?s = "\<lparr>ion_step = 1, collect_begin = True, collecting = False,
             coordinates = [] :: rat list list, forces = [] :: rat list list\<rparr>"
  have n: "length (fst (OutCar_iter (line2list exact_ops) example_report)) = 2"
    by code_simp
  have st: "step_line (line2list exact_ops) ?s report_header = Inr (?s, None)"
    by code_simp
  note inst = yielded_steps_consecutive [of "line2list exact_ops" example_report]
  from inst have "map fst (fst (OutCar_iter (line2list exact_ops) example_report)) = [1 .. 2]"
    by (simp add: n)
  moreover from inst st have "ion_step ?s = ion_step ?s \<and>
          (collect_begin ?s \<or> None = Some (ion_step ?s, coordinates ?s, forces ?s))"
    by simp
  moreover have "[1 .. 2 :: int] = [1, 2]" by code_simp
  ultimately show ?thesis using st by simp
qed

section \<open>Properties of OsziCar.load\<close>

lemma load_lines_no_match:
  "list_all (\<lambda>l. match ops l = Inr None) lines \<Longrightarrow>
   load_lines ops self content lines = Inr (self, content)"
  by (induction lines) auto

lemma load_no_match:
  assumes "self ''vars'' = None" and "list_all (\<lambda>l. match ops l = Inr None) lines"
  shows "load ops self lines = Inl AttributeError"
  using assms by (simp add: load_def load_lines_no_match getattr_def)

text \<open>
  C1. On a file in which no line matches, \<open>load\<close> does not complete with an empty
  schema: \<open>vars\<close> is set by the first matching line only, so the loop over \<open>self.vars\<close>
  after the file is read raises AttributeError (\<open>load_no_match\<close> for every such file).
  Here the file is a heading and an empty line.
\<close>

theorem load_heading_only_raises:
  "OsziCar exact_ops heading_only = Inl AttributeError"
proof -
  have "list_all (\<lambda>l. match exact_ops l = Inr None) heading_only"
    by code_simp
  moreover have "(new_OsziCar :: rat obj) ''vars'' = None"
    by (rule new_OsziCar_fresh)
  ultimately show ?thesis
    unfolding OsziCar_def by (rule load_no_match [rotated])
qed

lemma match_nonempty: "match ops l = Inr (Some t) \<Longrightarrow> t \<noteq> []"
  by (auto simp: match_def Let_def split: option.splits sum.splits prod.splits)

lemma load_lines_content:
  "load_lines ops self content lines = Inr (self', content') \<Longrightarrow>
   content' = content @ concat (filter (matched ops) lines)"
proof (induction lines arbitrary: self content)
  case Nil
  then show ?case by simp
next
  case (Cons l ls)
  show ?case
  proof (cases "match ops l")
    case (Inl e)
    with Cons.prems show ?thesis by simp
  next
    case (Inr r)
    show ?thesis
    proof (cases r)
      case None
      with Inr have m: "\<not> matched ops l" by (simp add: matched_def)
      from None Inr Cons.prems have "load_lines ops self content ls = Inr (self', content')"
        by simp
      from Cons.IH [OF this] m show ?thesis by simp
    next
      case (Some t)
      with Inr have ne: "t \<noteq> []" by (simp add: match_nonempty)
      from Some Inr have m: "matched ops l" by (simp add: matched_def)
      from Some Inr ne Cons.prems obtain self2 where
        "load_lines ops self2 (content @ l) ls = Inr (self', content')"
        by (auto simp: Let_def split: sum.splits)
      from Cons.IH [OF this] m show ?thesis by simp
    qed
  qed
qed

lemma np_array_text: "holds_text (Some v) t \<Longrightarrow> holds_text (Some (np_array v)) t"
  by (auto simp: holds_text_def)

lemma to_arrays_content:
  "to_arrays self vars = Inr self' \<Longrightarrow> holds_text (self ''content'') t \<Longrightarrow>
   holds_text (self' ''content'') t"
proof (induction self vars rule: to_arrays.induct)
  case (3 self var vs)
  from "3.prems"(1) obtain data where d: "self var = Some data"
    and ta: "to_arrays (self(var \<mapsto> np_array data)) vs = Inr self'"
    by (auto simp: getattr_def split: option.splits)
  have g: "getattr self var = Inr data" using d by (simp add: getattr_def)
  have "holds_text ((self(var \<mapsto> np_array data)) ''content'') t"
  proof (cases "var = ''content''")
    case True
    with d "3.prems"(2) show ?thesis by (simp add: np_array_text)
  next
    case False
    with "3.prems"(2) show ?thesis by simp
  qed
  with "3.IH" [OF g ta] show ?case .
qed auto

text \<open>
  C8. When \<open>load\<close> completes, \<open>content\<close> holds the concatenation, in the order of the
  file, of exactly the lines on which \<open>match\<close> returned a match. It holds it as a string,
  or wrapped by \<^verbatim>\<open>np.array\<close> when the first matching line has a field that is itself
  named \<open>content\<close>.
\<close>

theorem content_is_matched_lines:
  assumes "load ops self lines = Inr self'"
  shows "self' ''content'' = Some (PStr (concat (filter (matched ops) lines))) \<or>
         self' ''content'' = Some (PArrayOf (PStr (concat (filter (matched ops) lines))))"
proof -
  from assms obtain self1 content vars where
    ll: "load_lines ops self [] lines = Inr (self1, content)"
    and ta: "to_arrays (self1(''content'' \<mapsto> PStr content)) vars = Inr self'"
    by (auto simp: load_def Let_def split: sum.splits prod.splits)
  from load_lines_content [OF ll] have "content = concat (filter (matched ops) lines)" by simp
  with to_arrays_content [OF ta, of content] show ?thesis
    by (simp add: holds_text_def)
qed

theorem content_is_matched_lines_witness:
  "\<exists>self. OsziCar exact_ops example_log = Inr self \<and>
     (self ''content'' =
        Some (PStr (''   1 F= -.85E+02 E0= -.8E+02  d E =-.85E+02\<newline>'' @
                    ''   2 F= -.95E+02 E0= -.9E+02  d E =-.1E+02\<newline>'')) \<or>
      self ''content'' =
        Some (PArrayOf (PStr (''   1 F= -.85E+02 E0= -.8E+02  d E =-.85E+02\<newline>'' @
                              ''   2 F= -.95E+02 E0= -.9E+02  d E =-.1E+02\<newline>''))))"
proof -
  from example_loaded obtain self where l: "load exact_ops new_OsziCar example_log = Inr self"
    by (auto simp: OsziCar_def)
  have "concat (filter (matched exact_ops) example_log) =
      ''   1 F= -.85E+02 E0= -.8E+02  d E =-.85E+02\<newline>'' @
      ''   2 F= -.95E+02 E0= -.9E+02  d E =-.1E+02\<newline>''"
    by (simp add: example_log_def matched_def example_log_matches)
  with content_is_matched_lines [OF l] l show ?thesis
    by (simp only: OsziCar_def) blast
qed

section \<open>Properties of OsziCar.esort\<close>

lemma store_dom:
  "store self t = Inr self' \<Longrightarrow> self' x \<noteq> None \<Longrightarrow> self x \<noteq> None \<or> x \<in> fst ` set t"
proof (induction self t rule: store.induct)
  case (1 self)
  then show ?case by simp
next
  case (2 self name number rest)
  show ?case
  proof (cases "self name")
    case None
    with "2.prems" have "store (self(name \<mapsto> PList [number])) rest = Inr self'" by simp
    from "2.IH"(1) [OF None this "2.prems"(2)] show ?thesis by (auto split: if_splits)
  next
    case (Some v)
    with "2.prems" obtain v' where a: "append v number = Inr v'"
      and st: "store (self(name \<mapsto> v')) rest = Inr self'"
      by (auto split: sum.splits)
    from "2.IH"(2) [OF Some a st "2.prems"(2)] Some show ?thesis by (auto split: if_splits)
  qed
qed

lemma load_lines_dom:
  "load_lines ops self content lines = Inr (self', content') \<Longrightarrow> self' x \<noteq> None \<Longrightarrow>
   self x \<noteq> None \<or> x = ''vars'' \<or> x \<in> set (discovered ops lines)"
proof (induction lines arbitrary: self content)
  case Nil
  then show ?case by simp
next
  case (Cons l ls)
  show ?case
  proof (cases "match ops l")
    case (Inl e)
    with Cons.prems show ?thesis by simp
  next
    case (Inr r)
    show ?thesis
    proof (cases r)
      case None
      with Inr Cons.prems have "load_lines ops self content ls = Inr (self', content')" by simp
      from Cons.IH [OF this Cons.prems(2)] show ?thesis by (auto simp: discovered_def)
    next
      case (Some t)
      show ?thesis
      proof (cases "t = []")
        case True
        with Some Inr Cons.prems have "load_lines ops self content ls = Inr (self', content')"
          by simp
        from Cons.IH [OF this Cons.prems(2)] show ?thesis by (auto simp: discovered_def)
      next
        case False
        let ?self1 = "if self ''vars'' = None then self(''vars'' \<mapsto> PTuple (map fst t)) else self"
        from False Some Inr Cons.prems obtain self2 where
          st: "store ?self1 t = Inr self2"
          and ll: "load_lines ops self2 (content @ l) ls = Inr (self', content')"
          by (auto simp: Let_def split: sum.splits)
        have f: "fields_of ops l = map fst t" using Inr Some by (simp add: fields_of_def)
        from Cons.IH [OF ll Cons.prems(2)]
        consider "self2 x \<noteq> None" | "x = ''vars''" | "x \<in> set (discovered ops ls)" by blast
        then show ?thesis
        proof cases
          case 1
          from store_dom [OF st 1] f show ?thesis
            by (auto simp: discovered_def split: if_splits)
        qed (auto simp: discovered_def)
      qed
    qed
  qed
qed

lemma to_arrays_dom:
  "to_arrays self vs = Inr self' \<Longrightarrow> (self' x = None) = (self x = None)"
proof (induction self vs rule: to_arrays.induct)
  case (3 self var vs)
  from "3.prems"(1) obtain data where g: "getattr self var = Inr data"
    and ta: "to_arrays (self(var \<mapsto> np_array data)) vs = Inr self'"
    by (auto split: sum.splits)
  from "3.IH" [OF g ta] g show ?case by (auto simp: getattr_def split: option.splits if_splits)
qed auto

lemma load_dom:
  assumes "load ops self0 lines = Inr self" and "self x \<noteq> None"
  shows "self0 x \<noteq> None \<or> x = ''vars'' \<or> x = ''content'' \<or> x \<in> set (discovered ops lines)"
proof -
  from assms(1) obtain self1 content vars where
    ll: "load_lines ops self0 [] lines = Inr (self1, content)"
    and ta: "to_arrays (self1(''content'' \<mapsto> PStr content)) vars = Inr self"
    by (auto simp: load_def Let_def split: sum.splits prod.splits)
  from to_arrays_dom [OF ta, of x] assms(2)
  have "x = ''content'' \<or> self1 x \<noteq> None" by (auto split: if_splits)
  with load_lines_dom [OF ll, of x] show ?thesis by blast
qed

text \<open>
  C9, as the source has it. A name that \<open>load\<close> never came across as a field, and that
  is no other attribute of the object either (not \<open>vars\<close>, not \<open>content\<close>, nothing the
  object had before \<open>load\<close>), makes \<open>esort\<close> raise AttributeError, at the call and
  not in \<open>load\<close>.
\<close>

theorem esort_missing_field:
  assumes "load ops self0 lines = Inr self"
    and "var \<notin> set (discovered ops lines)"
    and "self0 var = None" and "var \<noteq> ''vars''" and "var \<noteq> ''content''"
  shows "esort ops self var n reverse = Inl AttributeError"
proof -
  from load_dom [OF assms(1), of var] assms(2-5) have "self var = None" by blast
  then show ?thesis by (simp add: esort_def zipped_def getattr_def)
qed

theorem esort_missing_field_witness:
  "(case OsziCar exact_ops example_log of
      Inl e \<Rightarrow> False
    | Inr self \<Rightarrow> esort exact_ops self ''E1'' 1 False = Inl AttributeError)"
proof -
  from example_loaded obtain self where l: "load exact_ops new_OsziCar example_log = Inr self"
    by (auto simp: OsziCar_def)
  have d: "''E1'' \<notin> set (discovered exact_ops example_log)" by (simp add: load_eval)
  have n: "(new_OsziCar :: rat obj) ''E1'' = None" by (rule new_OsziCar_fresh)
  from esort_missing_field [OF l d n] l show ?thesis by (simp add: OsziCar_def)
qed


text \<open>
  C9 as stated fails for a name that is an attribute without being a field: \<open>vars\<close> was
  never a field of the example log, and \<open>esort\<close> on it finds the tuple of names and raises
  ValueError when numpy converts the name \<open>step\<close> to a float.
\<close>

theorem esort_vars_not_missing:
  "(case OsziCar exact_ops example_log of
      Inl e \<Rightarrow> False
    | Inr self \<Rightarrow>
        ''vars'' \<notin> set (discovered exact_ops example_log) \<and>
        esort exact_ops self ''vars'' 1 False = Inl ValueError)"
  by (simp add: load_eval rx_eval match_eval cong: rx_cong)

text \<open>
  What \<open>load\<close> leaves behind for a field: every name that it came across as a field,
  except \<open>content\<close>, holds numbers when \<open>load\<close> has completed, and so does \<open>step\<close>.
\<close>

lemma store_keeps:
  "store self t = Inr self' \<Longrightarrow> nonempty_list (self x) \<Longrightarrow> nonempty_list (self' x)"
proof (induction self t rule: store.induct)
  case (1 self)
  then show ?case by simp
next
  case (2 self name number rest)
  show ?case
  proof (cases "self name")
    case None
    with "2.prems"(1) have st: "store (self(name \<mapsto> PList [number])) rest = Inr self'" by simp
    have "nonempty_list ((self(name \<mapsto> PList [number])) x)"
      using "2.prems"(2) by (simp add: nonempty_list_def)
    from "2.IH"(1) [OF None st this] show ?thesis .
  next
    case (Some v)
    with "2.prems"(1) obtain v' where a: "append v number = Inr v'"
      and st: "store (self(name \<mapsto> v')) rest = Inr self'"
      by (auto split: sum.splits)
    from a obtain xs where v': "v' = PList (xs @ [number])" by (cases v) auto
    have "nonempty_list ((self(name \<mapsto> v')) x)"
      using "2.prems"(2) by (simp add: nonempty_list_def v')
    from "2.IH"(2) [OF Some a st this] show ?thesis .
  qed
qed

lemma store_makes:
  "store self t = Inr self' \<Longrightarrow> x \<in> fst ` set t \<Longrightarrow> nonempty_list (self' x)"
proof (induction self t rule: store.induct)
  case (1 self)
  then show ?case by simp
next
  case (2 self name number rest)
  show ?case
  proof (cases "self name")
    case None
    with "2.prems"(1) have st: "store (self(name \<mapsto> PList [number])) rest = Inr self'" by simp
    show ?thesis
    proof (cases "x = name")
      case True
      then have "nonempty_list ((self(name \<mapsto> PList [number])) x)"
        by (simp add: nonempty_list_def)
      with st show ?thesis by (rule store_keeps)
    next
      case False
      with "2.prems"(2) have "x \<in> fst ` set rest" by auto
      from "2.IH"(1) [OF None st this] show ?thesis .
    qed
  next
    case (Some v)
    with "2.prems"(1) obtain v' where a: "append v number = Inr v'"
      and st: "store (self(name \<mapsto> v')) rest = Inr self'"
      by (auto split: sum.splits)
    from a obtain xs where v': "v' = PList (xs @ [number])" by (cases v) auto
    show ?thesis
    proof (cases "x = name")
      case True
      then have "nonempty_list ((self(name \<mapsto> v')) x)"
        by (simp add: nonempty_list_def v')
      with st show ?thesis by (rule store_keeps)
    next
      case False
      with "2.prems"(2) have "x \<in> fst ` set rest" by auto
      from "2.IH"(2) [OF Some a st this] show ?thesis .
    qed
  qed
qed

lemma load_lines_step:
  assumes "load_lines ops self content (l # ls) = Inr (self', content')"
  shows "(fields_of ops l = [] \<and> load_lines ops self content ls = Inr (self', content')) \<or>
         (\<exists>t self2 content2.
            fields_of ops l = map fst t \<and>
            store (if self ''vars'' = None then self(''vars'' \<mapsto> PTuple (map fst t)) else self) t =
              Inr self2 \<and>
            load_lines ops self2 content2 ls = Inr (self', content'))"
proof (cases "match ops l")
  case (Inl e)
  with assms show ?thesis by simp
next
  case (Inr r)
  show ?thesis
  proof (cases r)
    case None
    with Inr assms show ?thesis by (simp add: fields_of_def)
  next
    case (Some t)
    show ?thesis
    proof (cases "t = []")
      case True
      with Some Inr assms show ?thesis by (simp add: fields_of_def)
    next
      case False
      let ?self1 = "if self ''vars'' = None then self(''vars'' \<mapsto> PTuple (map fst t)) else self"
      from False Some Inr assms obtain self2 where
        "store ?self1 t = Inr self2"
        "load_lines ops self2 (content @ l) ls = Inr (self', content')"
        by (auto simp: Let_def split: sum.splits)
      moreover have "fields_of ops l = map fst t" using Inr Some by (simp add: fields_of_def)
      ultimately show ?thesis by blast
    qed
  qed
qed

lemma load_lines_keeps:
  fixes ops :: "'f float_ops"
  shows "load_lines ops self content lines = Inr (self', content') \<Longrightarrow> nonempty_list (self x) \<Longrightarrow>
   nonempty_list (self' x)"
proof (induction lines arbitrary: self content)
  case Nil
  then show ?case by simp
next
  case (Cons l ls)
  from load_lines_step [OF Cons.prems(1)] show ?case
  proof (elim disjE conjE exE)
    assume "load_lines ops self content ls = Inr (self', content')"
    from Cons.IH [OF this Cons.prems(2)] show ?thesis .
  next
    fix t :: "(string \<times> 'f num) list" and self2 content2
    let ?self1 = "if self ''vars'' = None then self(''vars'' \<mapsto> PTuple (map fst t)) else self"
    assume st: "store ?self1 t = Inr self2"
      and ll: "load_lines ops self2 content2 ls = Inr (self', content')"
    have "nonempty_list (?self1 x)"
      using Cons.prems(2) by (auto simp: nonempty_list_def)
    with st have "nonempty_list (self2 x)" by (rule store_keeps)
    from Cons.IH [OF ll this] show ?thesis .
  qed
qed

lemma load_lines_makes:
  fixes ops :: "'f float_ops"
  shows "load_lines ops self content lines = Inr (self', content') \<Longrightarrow>
   x \<in> set (discovered ops lines) \<Longrightarrow> nonempty_list (self' x)"
proof (induction lines arbitrary: self content)
  case Nil
  then show ?case by (simp add: discovered_def)
next
  case (Cons l ls)
  from Cons.prems(2) have x: "x \<in> set (fields_of ops l) \<or> x \<in> set (discovered ops ls)"
    by (auto simp: discovered_def)
  from load_lines_step [OF Cons.prems(1)] show ?case
  proof (elim disjE conjE exE)
    assume "fields_of ops l = []" and ll: "load_lines ops self content ls = Inr (self', content')"
    with x have "x \<in> set (discovered ops ls)" by simp
    from Cons.IH [OF ll this] show ?thesis .
  next
    fix t :: "(string \<times> 'f num) list" and self2 content2
    let ?self1 = "if self ''vars'' = None then self(''vars'' \<mapsto> PTuple (map fst t)) else self"
    assume f: "fields_of ops l = map fst t" and st: "store ?self1 t = Inr self2"
      and ll: "load_lines ops self2 content2 ls = Inr (self', content')"
    from x show ?thesis
    proof
      assume "x \<in> set (fields_of ops l)"
      with f have "x \<in> fst ` set t" by simp
      with st have "nonempty_list (self2 x)" by (rule store_makes)
      with ll show ?thesis by (rule load_lines_keeps)
    next
      assume "x \<in> set (discovered ops ls)"
      from Cons.IH [OF ll this] show ?thesis .
    qed
  qed
qed

lemma to_arrays_nums:
  "to_arrays self vs = Inr self' \<Longrightarrow> holds_nums (self x) xs \<Longrightarrow> holds_nums (self' x) xs"
proof (induction self vs rule: to_arrays.induct)
  case (3 self var vs)
  from "3.prems"(1) obtain data where g: "getattr self var = Inr data"
    and ta: "to_arrays (self(var \<mapsto> np_array data)) vs = Inr self'"
    by (auto split: sum.splits)
  have "holds_nums ((self(var \<mapsto> np_array data)) x) xs"
  proof (cases "x = var")
    case True
    with g "3.prems"(2) show ?thesis
      by (auto simp: getattr_def holds_nums_def split: option.splits)
  next
    case False
    with "3.prems"(2) show ?thesis by simp
  qed
  from "3.IH" [OF g ta this] show ?case .
qed auto

lemma fields_of_step: "x \<in> set (fields_of ops l) \<Longrightarrow> ''step'' \<in> set (fields_of ops l)"
  by (auto simp: fields_of_def match_def Let_def split: sum.splits option.splits prod.splits)

lemma discovered_step: "x \<in> set (discovered ops lines) \<Longrightarrow> ''step'' \<in> set (discovered ops lines)"
  by (auto simp: discovered_def dest: fields_of_step)

lemma loaded_nums:
  assumes "load ops self0 lines = Inr self" and "x \<in> set (discovered ops lines)"
    and "x \<noteq> ''content''"
  shows "\<exists>xs. holds_nums (self x) xs"
proof -
  from assms(1) obtain self1 content v vars where
    ll: "load_lines ops self0 [] lines = Inr (self1, content)"
    and gv: "getattr (self1(''content'' \<mapsto> PStr content)) ''vars'' = Inr v"
    and it: "py_iter v = Inr vars"
    and ta: "to_arrays (self1(''content'' \<mapsto> PStr content)) vars = Inr self"
    by (auto simp: load_def Let_def split: sum.splits prod.splits)
  from load_lines_makes [OF ll assms(2)] obtain xs where "self1 x = Some (PList xs)"
    by (auto simp: nonempty_list_def)
  with assms(3) have "holds_nums ((self1(''content'' \<mapsto> PStr content)) x) xs"
    by (simp add: holds_nums_def)
  with ta have "holds_nums (self x) xs" by (rule to_arrays_nums)
  then show ?thesis ..
qed

lemma zipped_nums:
  assumes "holds_nums (self var) vals" and "holds_nums (self ''step'') steps"
  shows "zipped self var = Inr (zip (map ENum vals) (map ENum steps))"
  using assms by (auto simp: zipped_def getattr_def holds_nums_def)

lemma loaded_zipped:
  assumes "load ops self0 lines = Inr self" and "var \<in> set (discovered ops lines)"
    and "var \<noteq> ''content''"
  shows "\<exists>vals steps. zipped self var = Inr (zip (map ENum vals) (map ENum steps))"
proof -
  from loaded_nums [OF assms] obtain vals where v: "holds_nums (self var) vals" ..
  have "''step'' \<noteq> ''content''" by simp
  from loaded_nums [OF assms(1) discovered_step [OF assms(2)] this]
  obtain steps where s: "holds_nums (self ''step'') steps" ..
  from zipped_nums [OF v s] show ?thesis by blast
qed

lemma sorted_map_fst:
  fixes xs :: "('a::linorder \<times> 'b::linorder) list"
  shows "sorted xs \<Longrightarrow> sorted (map fst xs)"
  by (induction xs) (auto simp: less_eq_prod_def)

lemma esort_eq:
  assumes "zipped self var = Inr z" and "structured ops z = Inr arr"
  shows "esort ops self var n reverse =
           Inr (if reverse then slice_from (- n) (sort arr) else slice_to n (sort arr))"
  using assms by (simp add: esort_def)

lemma esort_slices:
  assumes "zipped self var = Inr z" and "structured ops z = Inr arr"
    and "0 \<le> n" and "n \<le> int (length arr)"
  shows "esort ops self var n False = Inr (take (nat n) (sort arr)) \<and>
         length (take (nat n) (sort arr)) = nat n \<and>
         sorted (map fst (take (nat n) (sort arr))) \<and>
         (0 < n \<longrightarrow>
            esort ops self var n True = Inr (drop (length arr - nat n) (sort arr)) \<and>
            length (drop (length arr - nat n) (sort arr)) = nat n \<and>
            sorted (map fst (drop (length arr - nat n) (sort arr))) \<and>
            (\<forall>x \<in> set (take (length arr - nat n) (sort arr)).
               \<forall>y \<in> set (drop (length arr - nat n) (sort arr)). fst x \<le> fst y))"
proof -
  let ?s = "sort arr"
  let ?k = "length arr - nat n"
  have srt: "sorted (map fst ?s)" by (simp add: sorted_map_fst)
  have a: "esort ops self var n False = Inr (take (nat n) ?s)"
    using assms(3) by (simp add: esort_eq [OF assms(1,2)] slice_to_def)
  have b: "length (take (nat n) ?s) = nat n" using assms(3,4) by simp
  have c: "sorted (map fst (take (nat n) ?s))"
    using srt by (simp add: take_map [symmetric] sorted_wrt_take)
  have d: "esort ops self var n True = Inr (drop ?k ?s)" if "0 < n"
  proof -
    from that assms(4) have "nat (int (length arr) - n) = ?k" by linarith
    with that show ?thesis
      by (simp add: esort_eq [OF assms(1,2)] slice_from_def)
  qed
  have e: "length (drop ?k ?s) = nat n" using assms(3,4) by simp
  have f: "sorted (map fst (drop ?k ?s))"
    using srt by (simp add: drop_map [symmetric] sorted_wrt_drop)
  have "sorted (map fst (take ?k ?s) @ map fst (drop ?k ?s))"
    using srt by (simp add: map_append [symmetric] del: map_append)
  then have g: "\<forall>x \<in> set (take ?k ?s). \<forall>y \<in> set (drop ?k ?s). fst x \<le> fst y"
    by (auto simp: sorted_append)
  from a b c d e f g show ?thesis by blast
qed

text \<open>
  C4, as the source has it. Take any parser on which \<open>load\<close> has completed and any name
  it came across as a field, other than \<open>content\<close>. The field and \<open>step\<close> hold numbers,
  and \<open>esort\<close> pairs them by position. Whenever numpy can convert these pairs to rows and
  \<open>n\<close> is between 0 and the number of rows, \<open>esort\<close> without \<open>reverse\<close> returns the
  first \<open>n\<close> rows of the ascending order: exactly \<open>n\<close> rows, ascending by value. With
  \<open>reverse\<close> and \<open>n\<close> at least 1 it returns the last \<open>n\<close> rows of the same ascending
  order: exactly \<open>n\<close> rows, still ascending, and no row left out has a larger value.
\<close>

theorem esort_top_n:
  assumes "load ops self0 lines = Inr self" and "var \<in> set (discovered ops lines)"
    and "var \<noteq> ''content''"
  shows "\<exists>vals steps.
      holds_nums (self var) vals \<and> holds_nums (self ''step'') steps \<and>
      (\<forall>arr n.
         structured ops (zip (map ENum vals) (map ENum steps)) = Inr arr \<and>
         0 \<le> n \<and> n \<le> int (length arr) \<longrightarrow>
         esort ops self var n False = Inr (take (nat n) (sort arr)) \<and>
         length (take (nat n) (sort arr)) = nat n \<and>
         sorted (map fst (take (nat n) (sort arr))) \<and>
         (0 < n \<longrightarrow>
            esort ops self var n True = Inr (drop (length arr - nat n) (sort arr)) \<and>
            length (drop (length arr - nat n) (sort arr)) = nat n \<and>
            sorted (map fst (drop (length arr - nat n) (sort arr))) \<and>
            (\<forall>x \<in> set (take (length arr - nat n) (sort arr)).
               \<forall>y \<in> set (drop (length arr - nat n) (sort arr)). fst x \<le> fst y)))"
proof -
  from loaded_nums [OF assms] obtain vals where v: "holds_nums (self var) vals" ..
  have "''step'' \<noteq> ''content''" by simp
  from loaded_nums [OF assms(1) discovered_step [OF assms(2)] this]
  obtain steps where s: "holds_nums (self ''step'') steps" ..
  note z = zipped_nums [OF v s]
  from v s esort_slices [OF z] show ?thesis by blast
qed

lemma example_object:
  "\<exists>self. OsziCar exact_ops example_log = Inr self \<and>
     self ''step'' = Some (PArray [PInt 1, PInt 2]) \<and>
     self ''E0'' = Some (PArray [PFloat (- 80), PFloat (- 90)])"
  using example_loaded by blast

lemma example_discovered: "''E0'' \<in> set (discovered exact_ops example_log)"
  by (simp add: load_eval)

theorem esort_top_n_witness:
  "(case OsziCar exact_ops example_log of
      Inl e \<Rightarrow> False
    | Inr self \<Rightarrow>
        esort exact_ops self ''E0'' 1 False = Inr [(- 90, 2)] \<and>
        esort exact_ops self ''E0'' 1 True = Inr [(- 80, 1)] \<and>
        esort exact_ops self ''E0'' 2 True = Inr [(- 90, 2), (- 80, 1)])"
proof -
  from example_object obtain self where l: "OsziCar exact_ops example_log = Inr self"
    and st: "self ''step'' = Some (PArray [PInt 1, PInt 2])"
    and e0: "self ''E0'' = Some (PArray [PFloat (- 80), PFloat (- 90)])"
    by blast
  from l have ld: "load exact_ops new_OsziCar example_log = Inr self"
    by (simp only: OsziCar_def)
  have ne: "''E0'' \<noteq> ''content''" by simp
  from esort_top_n [where ops = exact_ops, OF ld example_discovered ne]
  obtain vals steps where v: "holds_nums (self ''E0'') vals"
    and s: "holds_nums (self ''step'') steps"
    and a: "\<And>arr n. structured exact_ops (zip (map ENum vals) (map ENum steps)) = Inr arr \<Longrightarrow>
         0 \<le> n \<Longrightarrow> n \<le> int (length arr) \<Longrightarrow>
         esort exact_ops self ''E0'' n False = Inr (take (nat n) (sort arr)) \<and>
         (0 < n \<longrightarrow>
            esort exact_ops self ''E0'' n True = Inr (drop (length arr - nat n) (sort arr)))"
    by blast
  from v e0 have vals: "vals = [PFloat (- 80), PFloat (- 90)]" by (simp add: holds_nums_def)
  from s st have steps: "steps = [PInt 1, PInt 2]" by (simp add: holds_nums_def)
  have c: "structured exact_ops (zip (map ENum vals) (map ENum steps)) = Inr [(- 80, 1), (- 90, 2)]"
    by (simp add: vals steps)
  have n1: "(0::int) \<le> 1" "1 \<le> int (length [(- 80 :: rat, 1 :: int), (- 90, 2)])"
    and n2: "(0::int) \<le> 2" "2 \<le> int (length [(- 80 :: rat, 1 :: int), (- 90, 2)])"
    and p: "(0::int) < 1" "(0::int) < 2"
    by simp_all
  note t1 = a [OF c n1]
  note t2 = a [OF c n2]
  from t1 [THEN conjunct1] have r1: "esort exact_ops self ''E0'' 1 False = Inr [(- 90, 2)]"
    by (simp add: example_sorted)
  from mp [OF t1 [THEN conjunct2] p(1)]
  have r2: "esort exact_ops self ''E0'' 1 True = Inr [(- 80, 1)]"
    by (simp add: example_sorted)
  from mp [OF t2 [THEN conjunct2] p(2)]
  have r3: "esort exact_ops self ''E0'' 2 True = Inr [(- 90, 2), (- 80, 1)]"
    by (simp add: example_sorted)
  from r1 r2 r3 show ?thesis by (simp add: l)
qed

lemma content_log_loaded:
  "\<exists>self. OsziCar exact_ops content_log = Inr self \<and>
     self ''content'' = Some (PArrayOf (PStr ''   1 content= .1E+01\<newline>'')) \<and>
     self ''step'' = Some (PArray [PInt 1])"
  by (simp add: load_eval)

lemma large_step_log_loaded:
  "\<exists>self. OsziCar exact_ops large_step_log = Inr self \<and>
     self ''E0'' = Some (PArray [PFloat (- 80)]) \<and>
     self ''step'' = Some (PArray [PInt 99999999999999999999])"
  by (simp add: load_eval)

text \<open>
  C4 as stated fails in three ways. Outside the range of \<open>n\<close>: the example log has two
  rows, so \<open>n = 3\<close> gives two rows, \<open>n = -1\<close> gives one row, and \<open>n = 0\<close> with
  \<open>reverse\<close> gives both rows, since \<^verbatim>\<open>srted[-0:]\<close> is the whole array. For a field named
  \<open>content\<close>: \<open>load\<close> overwrites the attribute with the text of the file, and \<open>esort\<close>
  raises TypeError. When a row does not convert: a step that does not fit the 64-bit
  integer field raises OverflowError.
\<close>

theorem esort_not_exactly_n:
  "(case OsziCar exact_ops example_log of
      Inl e \<Rightarrow> False
    | Inr self \<Rightarrow>
        esort exact_ops self ''E0'' 3 False = Inr [(- 90, 2), (- 80, 1)] \<and>
        esort exact_ops self ''E0'' 0 True = Inr [(- 90, 2), (- 80, 1)] \<and>
        esort exact_ops self ''E0'' (- 1) False = Inr [(- 90, 2)]) \<and>
   (case OsziCar exact_ops content_log of
      Inl e \<Rightarrow> False
    | Inr self \<Rightarrow>
        ''content'' \<in> set (discovered exact_ops content_log) \<and>
        esort exact_ops self ''content'' 1 False = Inl TypeError) \<and>
   (case OsziCar exact_ops large_step_log of
      Inl e \<Rightarrow> False
    | Inr self \<Rightarrow>
        ''E0'' \<in> set (discovered exact_ops large_step_log) \<and>
        esort exact_ops self ''E0'' 1 False = Inl OverflowError)"
proof -
  from example_records obtain self where l: "OsziCar exact_ops example_log = Inr self"
    and z: "zipped self ''E0'' =
       Inr [(ENum (PFloat (- 80)), ENum (PInt 1)), (ENum (PFloat (- 90)), ENum (PInt 2))]"
    by blast
  have a: "esort exact_ops self ''E0'' 3 False = Inr [(- 90, 2), (- 80, 1)] \<and>
        esort exact_ops self ''E0'' 0 True = Inr [(- 90, 2), (- 80, 1)] \<and>
        esort exact_ops self ''E0'' (- 1) False = Inr [(- 90, 2)]"
    by (simp add: esort_eq [OF z example_structured] example_sorted slice_to_def slice_from_def)
  from content_log_loaded obtain self2 where l2: "OsziCar exact_ops content_log = Inr self2"
    and c2: "self2 ''content'' = Some (PArrayOf (PStr ''   1 content= .1E+01\<newline>''))"
    and s2: "self2 ''step'' = Some (PArray [PInt 1])"
    by blast
  have b: "''content'' \<in> set (discovered exact_ops content_log) \<and>
        esort exact_ops self2 ''content'' 1 False = Inl TypeError"
    by (simp add: discovered_def fields_of_def content_log_def example_log_matches
        esort_def zipped_def getattr_def c2 s2)
  from large_step_log_loaded obtain self3 where l3: "OsziCar exact_ops large_step_log = Inr self3"
    and e3: "self3 ''E0'' = Some (PArray [PFloat (- 80)])"
    and s3: "self3 ''step'' = Some (PArray [PInt 99999999999999999999])"
    by blast
  have c: "''E0'' \<in> set (discovered exact_ops large_step_log) \<and>
        esort exact_ops self3 ''E0'' 1 False = Inl OverflowError"
    by (simp add: discovered_def fields_of_def large_step_log_def example_log_matches
        esort_def zipped_def getattr_def e3 s3)
  from a b c show ?thesis by (simp add: l l2 l3)
qed

section \<open>Properties of OsziCar.match\<close>

text \<open>
  From here on the matcher is no longer evaluated on a given text: what a pattern does is
  derived from what its parts do, for every text of a given shape.
\<close>

declare rx_match.simps [simp del]

subsection \<open>The first match of a pattern\<close>

























lemma in_digit [simp]: "in_set [Digit] c = is_digit c"
  by (simp add: in_set_def)

lemma in_space [simp]: "in_set [Space] c = is_space c"
  by (simp add: in_set_def)

lemma in_ch [simp]: "in_set [Ch d] c = (c = d)"
  by (simp add: in_set_def)
























subsection \<open>The assignments of a line\<close>






















end
